theory Spec2Isabelle
  imports Main "HOL-Library.AList"
begin

section \<open>Data model\<close>

text \<open>
  The backend keeps one JSON document on disk (\<open>storage_service.py\<close>) and an
  in-memory connection manager (\<open>main.py\<close>). Python dictionaries keep insertion order,
  assigning to a present key keeps its position, so a dictionary is an association list
  updated with \<open>AList.update\<close>. A Python string is the list of its code points, and a
  \<open>char\<close> is a code point below 256: the strings are those of ASCII and Latin-1 text.

  A reading of the wall clock (\<open>datetime.now()\<close>) is an \<open>instant\<close>. The clock is a
  parameter \<open>clk\<close>: its \<open>n\<close>-th reading is \<open>clk n\<close>, and the world counts the readings
  taken so far. The stored renderings (\<open>isoformat()\<close>, \<open>"log-" + timestamp()\<close>) are
  kept as the instant itself.
\<close>

type_synonym instant = nat
type_synonym clock = "nat \<Rightarrow> instant"

text \<open>The request models of \<open>models/schemas.py\<close>.\<close>

record Contact =
  contact_id :: string
  contact_name :: string
  contact_phone :: string
  contact_avatar :: "string option"

record BroadcastList =
  list_id :: string
  list_name :: string
  list_members :: "Contact list"
  list_created_at :: instant
  list_is_auto_generated :: bool

text \<open>
  The JSON objects of the store. A key that the code reads with \<open>.get(key, default)\<close>
  may be absent (\<open>None\<close>); \<open>id\<close> is read with \<open>l["id"]\<close> and is always there.
  \<open>isAutoGenerated\<close>, \<open>synced_from\<close> and \<open>synced_at\<close> are not keys of the request
  model: the first is written by other writers of the file, the last two by the sync.
\<close>

record member =
  m_id :: string
  m_name :: "string option"
  m_phone :: "string option"
  m_avatar :: "string option"

record blist =
  lid :: string
  lname :: "string option"
  members :: "member list option"
  created_at :: instant
  is_auto_generated :: "bool option"
  isAutoGenerated :: "bool option"
  synced_from :: "string option"
  synced_at :: "instant option"

record log_entry =
  log_id :: instant
  timestamp :: instant
  action :: string
  status :: string
  details :: "string option"

record document =
  lists :: "blist list"
  logs :: "log_entry list"
  last_sync :: "instant option"

text \<open>\<open>Contact.dict()\<close> and \<open>BroadcastList.dict()\<close>: every field of the model is a key.\<close>

definition contact_dict :: "Contact \<Rightarrow> member" where
  "contact_dict c =
     \<lparr>m_id = contact_id c, m_name = Some (contact_name c),
      m_phone = Some (contact_phone c), m_avatar = contact_avatar c\<rparr>"

definition list_dict :: "BroadcastList \<Rightarrow> blist" where
  "list_dict b =
     \<lparr>lid = list_id b, lname = Some (list_name b),
      members = Some (map contact_dict (list_members b)),
      created_at = list_created_at b,
      is_auto_generated = Some (list_is_auto_generated b),
      isAutoGenerated = None, synced_from = None, synced_at = None\<rparr>"

text \<open>The messages sent to WebSocket clients by the connection manager.\<close>

type_synonym websocket = nat

datatype message =
  SyncMessage string nat nat instant
| DataChange string string instant

text \<open>
  The world: the storage file (\<open>None\<close> when it does not exist yet), the number of clock
  readings taken, the connection manager's two fields, and the record of every
  \<open>send_json\<close> call made (connection, message, whether it went through).
\<close>

record world =
  storage_file :: "document option"
  ticks :: nat
  active_connections :: "websocket list"
  connected_devices :: "(string \<times> instant) list"
  send_log :: "(websocket \<times> message \<times> bool) list"

definition now :: "clock \<Rightarrow> world \<Rightarrow> instant \<times> world" where
  "now clk w = (clk (ticks w), w\<lparr>ticks := Suc (ticks w)\<rparr>)"

section \<open>storage\_service.py\<close>

definition empty_document :: document where
  "empty_document = \<lparr>lists = [], logs = [], last_sync = None\<rparr>"

definition ensure_storage_exists :: "world \<Rightarrow> world" where
  "ensure_storage_exists w =
     (case storage_file w of
        None \<Rightarrow> w\<lparr>storage_file := Some empty_document\<rparr>
      | Some d \<Rightarrow> w)"

text \<open>After \<open>ensure_storage_exists\<close> the file is there, so the read cannot miss it.\<close>

definition load_data :: "world \<Rightarrow> document \<times> world" where
  "load_data w =
     (let w1 = ensure_storage_exists w
      in (case storage_file w1 of Some d \<Rightarrow> d | None \<Rightarrow> empty_document, w1))"

definition save_data :: "document \<Rightarrow> world \<Rightarrow> world" where
  "save_data d w = (ensure_storage_exists w)\<lparr>storage_file := Some d\<rparr>"

definition get_lists :: "world \<Rightarrow> blist list \<times> world" where
  "get_lists w = (let (data, w1) = load_data w in (lists data, w1))"

definition save_lists :: "clock \<Rightarrow> blist list \<Rightarrow> world \<Rightarrow> world" where
  "save_lists clk ls w =
     (let (data, w1) = load_data w;
          (t, w2) = now clk w1
      in save_data (data\<lparr>lists := ls, last_sync := Some t\<rparr>) w2)"

text \<open>
  The loop of \<open>sync_from_android\<close>: each incoming list is stamped with the device and
  with its own reading of the clock, then stored under its id.
\<close>

fun sync_loop ::
  "clock \<Rightarrow> string \<Rightarrow> blist list \<Rightarrow> (string \<times> blist) list \<Rightarrow> world
     \<Rightarrow> (string \<times> blist) list \<times> world" where
  "sync_loop clk device_id [] existing_lists w = (existing_lists, w)"
| "sync_loop clk device_id (new_list # rest) existing_lists w =
     (let (t, w1) = now clk w;
          stamped = new_list\<lparr>synced_from := Some device_id, synced_at := Some t\<rparr>
      in sync_loop clk device_id rest (AList.update (lid stamped) stamped existing_lists) w1)"

record sync_result =
  synced :: nat
  total :: nat
  sync_timestamp :: instant

definition sync_from_android ::
  "clock \<Rightarrow> string \<Rightarrow> blist list \<Rightarrow> world \<Rightarrow> sync_result \<times> world" where
  "sync_from_android clk device_id new_lists w =
     (let (data, w1) = load_data w;
          existing_lists = fold (\<lambda>l m. AList.update (lid l) l m) (lists data) [];
          (merged, w2) = sync_loop clk device_id new_lists existing_lists w1;
          (t, w3) = now clk w2;
          data1 = data\<lparr>lists := map snd merged, last_sync := Some t\<rparr>;
          w4 = save_data data1 w3
      in (\<lparr>synced = length new_lists, total = length (lists data1), sync_timestamp = t\<rparr>, w4))"

definition add_log ::
  "clock \<Rightarrow> string \<Rightarrow> string \<Rightarrow> string option \<Rightarrow> world \<Rightarrow> log_entry \<times> world" where
  "add_log clk act st det w =
     (let (data, w1) = load_data w;
          (t1, w2) = now clk w1;
          (t2, w3) = now clk w2;
          log = \<lparr>log_id = t1, timestamp = t2, action = act, status = st, details = det\<rparr>;
          logs1 = take 100 (log # logs data);
          w4 = save_data (data\<lparr>logs := logs1\<rparr>) w3
      in (log, w4))"

definition get_logs :: "world \<Rightarrow> log_entry list \<times> world" where
  "get_logs w = (let (data, w1) = load_data w in (logs data, w1))"

definition clear_data :: "world \<Rightarrow> world" where
  "clear_data w = save_data empty_document w"

text \<open>A sequence of appends, each with its action, status and details; the entries
  written are returned in the order of the calls.\<close>

fun add_logs ::
  "clock \<Rightarrow> (string \<times> string \<times> string option) list \<Rightarrow> world \<Rightarrow> log_entry list \<times> world" where
  "add_logs clk [] w = ([], w)"
| "add_logs clk ((act, st, det) # rest) w =
     (let (log, w1) = add_log clk act st det w;
          (more, w2) = add_logs clk rest w1
      in (log # more, w2))"

section \<open>main.py: the connection manager\<close>

text \<open>
  \<open>send_json\<close> either goes through or raises; which one is the parameter \<open>up\<close>, a
  property of the connection. What it raises on a closed or broken connection
  (\<open>WebSocketDisconnect\<close>, \<open>RuntimeError\<close>) is an \<open>Exception\<close>, which is what
  \<open>broadcast\<close> catches. Each call is recorded in \<open>send_log\<close>.
\<close>

definition send_json :: "(websocket \<Rightarrow> bool) \<Rightarrow> websocket \<Rightarrow> message \<Rightarrow> world \<Rightarrow> bool \<times> world" where
  "send_json up connection msg w =
     (up connection, w\<lparr>send_log := send_log w @ [(connection, msg, up connection)]\<rparr>)"

definition connect :: "websocket \<Rightarrow> world \<Rightarrow> world" where
  "connect ws w = w\<lparr>active_connections := active_connections w @ [ws]\<rparr>"

definition disconnect :: "websocket \<Rightarrow> world \<Rightarrow> world" where
  "disconnect ws w =
     (if ws \<in> set (active_connections w)
      then w\<lparr>active_connections := remove1 ws (active_connections w)\<rparr>
      else w)"

text \<open>
  The first loop of \<open>broadcast\<close>, over the connections still to visit, with the list
  \<open>disconnected\<close> built so far; the \<open>except\<close> branch appends to it.
\<close>

fun broadcast_loop ::
  "(websocket \<Rightarrow> bool) \<Rightarrow> message \<Rightarrow> websocket list \<Rightarrow> websocket list \<Rightarrow> world
     \<Rightarrow> websocket list \<times> world" where
  "broadcast_loop up msg [] disconnected w = (disconnected, w)"
| "broadcast_loop up msg (connection # rest) disconnected w =
     (let (ok, w1) = send_json up connection msg w
      in if ok then broadcast_loop up msg rest disconnected w1
         else broadcast_loop up msg rest (disconnected @ [connection]) w1)"

definition broadcast :: "(websocket \<Rightarrow> bool) \<Rightarrow> message \<Rightarrow> world \<Rightarrow> world" where
  "broadcast up msg w =
     (let (disconnected, w1) = broadcast_loop up msg (active_connections w) [] w
      in fold disconnect disconnected w1)"

definition notify_sync ::
  "clock \<Rightarrow> (websocket \<Rightarrow> bool) \<Rightarrow> string \<Rightarrow> nat \<Rightarrow> nat \<Rightarrow> world \<Rightarrow> world" where
  "notify_sync clk up device_id lists_count members_count w =
     (let (t1, w1) = now clk w;
          w2 = w1\<lparr>connected_devices := AList.update device_id t1 (connected_devices w1)\<rparr>;
          (t2, w3) = now clk w2
      in broadcast up (SyncMessage device_id lists_count members_count t2) w3)"

definition notify_data_change ::
  "clock \<Rightarrow> (websocket \<Rightarrow> bool) \<Rightarrow> string \<Rightarrow> string \<Rightarrow> world \<Rightarrow> world" where
  "notify_data_change clk up act det w =
     (let (t, w1) = now clk w
      in broadcast up (DataChange act det t) w1)"

section \<open>main.py: the list endpoints\<close>

text \<open>\<open>str\<close> of a natural number, for the f-strings of the log entries.\<close>

fun str_nat :: "nat \<Rightarrow> string" where
  "str_nat n =
     (if n < 10 then [char_of (48 + n)]
      else str_nat (n div 10) @ [char_of (48 + n mod 10)])"

declare str_nat.simps [simp del]

datatype http_error = HTTPException nat string

definition create_list ::
  "clock \<Rightarrow> (websocket \<Rightarrow> bool) \<Rightarrow> BroadcastList \<Rightarrow> world \<Rightarrow> BroadcastList \<times> world" where
  "create_list clk up broadcast_list w =
     (let (ls, w1) = get_lists w;
          ls1 = ls @ [list_dict broadcast_list];
          w2 = save_lists clk ls1 w1;
          (log, w3) = add_log clk (''Created list '' @ [CHR 0x27] @ list_name broadcast_list @ [CHR 0x27])
                        ''success''
                        (Some (str_nat (length (list_members broadcast_list)) @ '' members'')) w2;
          w4 = notify_data_change clk up ''list_created'' (list_name broadcast_list) w3
      in (broadcast_list, w4))"

text \<open>
  \<open>delete_list\<close> returns the error of its \<open>raise HTTPException\<close> on the left, the
  message of its response on the right.
\<close>

definition delete_list ::
  "clock \<Rightarrow> (websocket \<Rightarrow> bool) \<Rightarrow> string \<Rightarrow> world \<Rightarrow> (http_error + string) \<times> world" where
  "delete_list clk up list_id' w =
     (let (ls, w1) = get_lists w;
          original_count = length ls;
          deleted_name = (case filter (\<lambda>l. lid l = list_id') ls of
                            [] \<Rightarrow> None | l # rest \<Rightarrow> lname l);
          ls1 = filter (\<lambda>l. lid l \<noteq> list_id') ls
      in if length ls1 = original_count
         then (Inl (HTTPException 404 ''List not found''), w1)
         else
           (let w2 = save_lists clk ls1 w1;
                (log, w3) = add_log clk (''Deleted list '' @ list_id') ''success'' None w2;
                w4 = notify_data_change clk up ''list_deleted''
                       (case deleted_name of
                          None \<Rightarrow> list_id'
                        | Some n \<Rightarrow> if n = [] then list_id' else n) w3
            in (Inr ''List deleted'', w4)))"

section \<open>main.py: common members\<close>

text \<open>
  \<open>str.lower()\<close> and \<open>str.strip()\<close> on the code points below 256. There
  \<open>str.lower()\<close> works code point by code point: it adds 32 to the upper-case letters,
  which are 65 to 90 (A to Z) and 192 to 222 except 215 (the multiplication sign), and
  leaves every other code point as it is. The white space that \<open>str.strip()\<close> removes
  from both ends is 9 to 13, 28 to 31, 32 (the space), 133 (next line) and 160 (the
  no-break space).
\<close>

definition lower_char :: "char \<Rightarrow> char" where
  "lower_char c =
     (let n = (of_char c :: nat)
      in if (65 \<le> n \<and> n \<le> 90) \<or> (192 \<le> n \<and> n \<le> 222 \<and> n \<noteq> 215)
         then char_of (n + 32) else c)"

definition lower :: "string \<Rightarrow> string" where
  "lower s = map lower_char s"

definition is_space :: "char \<Rightarrow> bool" where
  "is_space c =
     (let n = (of_char c :: nat)
      in n = 32 \<or> (9 \<le> n \<and> n \<le> 13) \<or> (28 \<le> n \<and> n \<le> 31) \<or> n = 133 \<or> n = 160)"

definition strip :: "string \<Rightarrow> string" where
  "strip s = rev (dropWhile is_space (rev (dropWhile is_space s)))"

text \<open>The slice \<open>phone[-10:]\<close>: the whole string when it has fewer than 10 characters.\<close>

definition last10 :: "string \<Rightarrow> string" where
  "last10 s = drop (length s - 10) s"

definition member_key :: "member \<Rightarrow> string" where
  "member_key m =
     (let phone = (case m_phone m of None \<Rightarrow> [] | Some p \<Rightarrow> p);
          name = (case m_name m of None \<Rightarrow> [] | Some n \<Rightarrow> n)
      in if phone \<noteq> [] then last10 phone else strip (lower name))"

text \<open>A value of the dictionary \<open>member_counts\<close>.\<close>

record info =
  info_member :: member
  count :: nat
  in_lists :: "string list"

text \<open>The body of the inner loop, for one member of the list named \<open>list_name\<close>.\<close>

definition count_member :: "string \<Rightarrow> member \<Rightarrow> (string \<times> info) list \<Rightarrow> (string \<times> info) list" where
  "count_member list_name' m member_counts =
     (let key = member_key m
      in if key \<noteq> [] then
           (let mc1 = (if map_of member_counts key = None
                       then AList.update key \<lparr>info_member = m, count = 0, in_lists = []\<rparr> member_counts
                       else member_counts);
                mc2 = AList.map_entry key (\<lambda>i. i\<lparr>count := count i + 1\<rparr>) mc1
            in AList.map_entry key (\<lambda>i. i\<lparr>in_lists := in_lists i @ [list_name']\<rparr>) mc2)
         else member_counts)"

definition source_list :: "blist \<Rightarrow> bool" where
  "source_list l =
     (\<not> (case is_auto_generated l of None \<Rightarrow> False | Some b \<Rightarrow> b) \<and>
      \<not> (case isAutoGenerated l of None \<Rightarrow> False | Some b \<Rightarrow> b))"

definition get_name :: "blist \<Rightarrow> string" where
  "get_name l = (case lname l of None \<Rightarrow> ''Unknown'' | Some n \<Rightarrow> n)"

definition get_members :: "blist \<Rightarrow> member list" where
  "get_members l = (case members l of None \<Rightarrow> [] | Some ms \<Rightarrow> ms)"

definition count_members :: "blist list \<Rightarrow> (string \<times> info) list" where
  "count_members source_lists =
     fold (\<lambda>lst mc. fold (count_member (get_name lst)) (get_members lst) mc) source_lists []"

text \<open>
  An element of \<open>common_members\<close>: the member's own keys, \<open>appears_in\<close> and
  \<open>list_names\<close>. \<open>list(set(...))\<close> fixes no order, so \<open>list_names\<close> is a set.
\<close>

record common_member =
  cm_member :: member
  appears_in :: nat
  list_names :: "string set"

record common_response =
  success :: bool
  common_members :: "common_member list"
  source_lists_count :: nat
  message_text :: "string option"
  total_common :: "nat option"

text \<open>
  \<open>list.sort(key, reverse=True)\<close> is stable and descending: it is the stable
  ascending sort on the negated key.
\<close>

definition get_common_members :: "world \<Rightarrow> common_response \<times> world" where
  "get_common_members w =
     (let (ls, w1) = get_lists w;
          source_lists = filter source_list ls
      in if length source_lists < 2
         then (\<lparr>success = True, common_members = [],
                 source_lists_count = length source_lists,
                 message_text = Some ''Need at least 2 lists to find common members'',
                 total_common = None\<rparr>, w1)
         else
           (let member_counts = count_members source_lists;
                found = map (\<lambda>(key, i). \<lparr>cm_member = info_member i, appears_in = count i,
                                           list_names = set (in_lists i)\<rparr>)
                          (filter (\<lambda>(key, i). count i \<ge> 2) member_counts);
                sorted_members = sort_key (\<lambda>x. - int (appears_in x)) found
            in (\<lparr>success = True, common_members = sorted_members,
                  source_lists_count = length source_lists,
                  message_text = None,
                  total_common = Some (length sorted_members)\<rparr>, w1)))"

section \<open>main.py: the logs endpoints\<close>

definition clear_logs :: "clock \<Rightarrow> world \<Rightarrow> string \<times> world" where
  "clear_logs clk w =
     (let (log, w1) = add_log clk ''Logs cleared'' ''success'' None w
      in (''Logs cleared'', w1))"

section \<open>Occurrences of an identity key\<close>

text \<open>
  The words of the aggregation's contract, over the source lists: every member occurrence
  with the name of its list, in the order of the two loops; the occurrence count of a key;
  the set of list names a key appeared in.
\<close>

definition occurrences :: "blist list \<Rightarrow> (string \<times> member) list" where
  "occurrences source_lists =
     concat (map (\<lambda>l. map (\<lambda>m. (get_name l, m)) (get_members l)) source_lists)"

definition occurrence_count :: "string \<Rightarrow> blist list \<Rightarrow> nat" where
  "occurrence_count k source_lists =
     length (filter (\<lambda>(n, m). member_key m = k) (occurrences source_lists))"

definition names_of_key :: "string \<Rightarrow> blist list \<Rightarrow> string set" where
  "names_of_key k source_lists =
     set (map fst (filter (\<lambda>(n, m). member_key m = k) (occurrences source_lists)))"

text \<open>
  What \<open>member_counts\<close> holds for a key after the occurrences \<open>xs\<close>: nothing for the
  empty key or a key that did not occur, otherwise the first member seen with the key,
  the number of occurrences and the names of their lists.
\<close>

definition tally :: "(string \<times> member) list \<Rightarrow> string \<Rightarrow> info option" where
  "tally xs k =
     (case filter (\<lambda>(n, m). member_key m = k) xs of
        [] \<Rightarrow> None
      | (n, m) # rest \<Rightarrow>
          if k = [] then None
          else Some \<lparr>info_member = m, count = Suc (length rest), in_lists = n # map fst rest\<rparr>)"

section \<open>The dictionary of lists by id\<close>

text \<open>
  What holds of \<open>existing_lists\<close> throughout \<open>sync_from_android\<close>: no key occurs
  twice, and every list is stored under its own id.
\<close>

definition keyed :: "(string \<times> blist) list \<Rightarrow> bool" where
  "keyed al = (distinct (map fst al) \<and> (\<forall>(k, v) \<in> set al. lid v = k))"

section \<open>Example worlds\<close>

text \<open>A clock, and the world before anything has happened: no storage file, no client.\<close>

definition clock0 :: clock where
  "clock0 n = 1000 + n"

definition world0 :: world where
  "world0 = \<lparr>storage_file = None, ticks = 0, active_connections = [],
              connected_devices = [], send_log = []\<rparr>"

text \<open>Three contacts and two lists, as the request models carry them.\<close>

definition bob_plain :: Contact where
  "bob_plain = \<lparr>contact_id = ''1'', contact_name = ''Bob'', contact_phone = ''5551234567'',
                 contact_avatar = None\<rparr>"

definition bob_dashed :: Contact where
  "bob_dashed = \<lparr>contact_id = ''2'', contact_name = ''Bob'', contact_phone = ''+1-555-123-4567'',
                  contact_avatar = None\<rparr>"

definition alice :: Contact where
  "alice = \<lparr>contact_id = ''3'', contact_name = ''Alice'', contact_phone = ''5550000001'',
             contact_avatar = None\<rparr>"

definition team :: "Contact list \<Rightarrow> BroadcastList" where
  "team ms = \<lparr>list_id = ''L1'', list_name = ''Team'', list_members = ms,
               list_created_at = 0, list_is_auto_generated = False\<rparr>"

definition friends :: "Contact list \<Rightarrow> BroadcastList" where
  "friends ms = \<lparr>list_id = ''L2'', list_name = ''Friends'', list_members = ms,
                  list_created_at = 0, list_is_auto_generated = False\<rparr>"

text \<open>
  Two contacts without a phone, whose names differ in case and in surrounding white space
  only: J, O, S and the capital E with acute accent (201); and the no-break space (160),
  j, o, s, the small e with acute accent (233) and the next-line character (133).
\<close>

definition jose_upper :: Contact where
  "jose_upper = \<lparr>contact_id = ''4'', contact_name = ''JOS'' @ [CHR 0xC9], contact_phone = [],
                  contact_avatar = None\<rparr>"

definition jose_padded :: Contact where
  "jose_padded = \<lparr>contact_id = ''5'', contact_name = [CHR 0xA0] @ ''jos'' @ [CHR 0xE9, CHR 0x85],
                   contact_phone = [], contact_avatar = None\<rparr>"

text \<open>The world whose storage file holds the given lists and nothing else.\<close>

definition stored :: "blist list \<Rightarrow> world" where
  "stored ls = world0\<lparr>storage_file := Some \<lparr>lists = ls, logs = [], last_sync = None\<rparr>\<rparr>"

section \<open>The storage file under each operation\<close>

lemma fst_load_data:
  "fst (load_data w) = (case storage_file w of None \<Rightarrow> empty_document | Some d \<Rightarrow> d)"
  by (simp add: load_data_def ensure_storage_exists_def split: option.splits)

lemma snd_load_data: "snd (load_data w) = ensure_storage_exists w"
  by (simp add: load_data_def Let_def)

lemma fst_get_lists:
  "fst (get_lists w) = lists (case storage_file w of None \<Rightarrow> empty_document | Some d \<Rightarrow> d)"
  by (simp add: get_lists_def split_beta fst_load_data)

lemma snd_get_lists: "snd (get_lists w) = ensure_storage_exists w"
  by (simp add: get_lists_def split_beta snd_load_data)

lemma fst_get_logs:
  "fst (get_logs w) = logs (case storage_file w of None \<Rightarrow> empty_document | Some d \<Rightarrow> d)"
  by (simp add: get_logs_def split_beta fst_load_data)

lemma storage_file_ensure:
  "storage_file (ensure_storage_exists w) =
     Some (case storage_file w of None \<Rightarrow> empty_document | Some d \<Rightarrow> d)"
  by (simp add: ensure_storage_exists_def split: option.splits)

lemma storage_file_save_data: "storage_file (save_data d w) = Some d"
  by (simp add: save_data_def)

lemma storage_file_now: "storage_file (snd (now clk w)) = storage_file w"
  by (simp add: now_def)

lemma storage_file_save_lists:
  "storage_file (save_lists clk ls w) =
     Some ((case storage_file w of None \<Rightarrow> empty_document | Some d \<Rightarrow> d)
             \<lparr>lists := ls, last_sync := Some (clk (ticks w))\<rparr>)"
  by (simp add: save_lists_def split_beta fst_load_data snd_load_data storage_file_save_data
      now_def ensure_storage_exists_def split: option.splits)

lemma storage_file_add_log:
  "storage_file (snd (add_log clk act st det w)) =
     Some ((case storage_file w of None \<Rightarrow> empty_document | Some d \<Rightarrow> d)
             \<lparr>logs := take 100 (fst (add_log clk act st det w) #
                 logs (case storage_file w of None \<Rightarrow> empty_document | Some d \<Rightarrow> d))\<rparr>)"
  by (simp add: add_log_def split_beta Let_def fst_load_data snd_load_data storage_file_save_data)

lemma broadcast_loop_eq:
  "broadcast_loop up msg cs disconnected w =
     (disconnected @ filter (\<lambda>c. \<not> up c) cs,
      w\<lparr>send_log := send_log w @ map (\<lambda>c. (c, msg, up c)) cs\<rparr>)"
  by (induction cs arbitrary: disconnected w) (simp_all add: send_json_def)

lemma fold_remove1_notin:
  "x \<notin> set ds \<Longrightarrow> fold remove1 ds (x # ys) = x # fold remove1 ds ys"
  by (induction ds arbitrary: ys) auto

lemma fold_remove1_filter:
  "fold remove1 (filter (\<lambda>c. \<not> up c) cs) cs = filter up cs"
  by (induction cs) (auto simp: fold_remove1_notin)

lemma fold_disconnect:
  "fold disconnect ds w = w\<lparr>active_connections := fold remove1 ds (active_connections w)\<rparr>"
proof (induction ds arbitrary: w)
  case Nil
  show ?case by simp
next
  case (Cons d ds)
  have "disconnect d w = w\<lparr>active_connections := remove1 d (active_connections w)\<rparr>"
    by (simp add: disconnect_def remove1_idem)
  then show ?case by (simp add: Cons.IH)
qed

lemma broadcast_eq:
  "broadcast up msg w =
     w\<lparr>active_connections := filter up (active_connections w),
       send_log := send_log w @ map (\<lambda>c. (c, msg, up c)) (active_connections w)\<rparr>"
  by (simp add: broadcast_def broadcast_loop_eq fold_disconnect fold_remove1_filter)

lemma storage_file_notify_data_change:
  "storage_file (notify_data_change clk up act det w) = storage_file w"
  by (simp add: notify_data_change_def split_beta broadcast_eq now_def)

text \<open>Unfolding the examples and the aggregation, to evaluate them.\<close>

lemmas ex_defs = bob_plain_def bob_dashed_def alice_def team_def friends_def stored_def world0_def
  clock0_def list_dict_def contact_dict_def

lemmas agg_defs = get_common_members_def count_members_def count_member_def member_key_def
  last10_def source_list_def get_name_def get_members_def fst_get_lists snd_get_lists
  ensure_storage_exists_def strip_def lower_def lower_char_def is_space_def Let_def

section \<open>The fan-out of the connection manager\<close>

text \<open>
  Claim C3. For every list of live connections and every broadcast: the first loop visits
  every live connection once, in order, and leaves the live list as it was, collecting
  the connections whose \<open>send_json\<close> raised; only then are these removed. The call
  returns a world (no error reaches the caller) in which exactly the connections whose
  delivery failed are gone, and every other connection has been sent the message.
\<close>

theorem broadcast_isolates_failures:
  "broadcast_loop up msg (active_connections w) [] w =
     (filter (\<lambda>c. \<not> up c) (active_connections w),
      w\<lparr>send_log := send_log w @ map (\<lambda>c. (c, msg, up c)) (active_connections w)\<rparr>) \<and>
   broadcast up msg w =
     w\<lparr>active_connections := filter up (active_connections w),
       send_log := send_log w @ map (\<lambda>c. (c, msg, up c)) (active_connections w)\<rparr>"
  by (simp add: broadcast_loop_eq broadcast_eq)

theorem broadcast_isolates_failures_witness:
  "active_connections (broadcast (\<lambda>c. c \<noteq> 2) (DataChange ''list_created'' ''Team'' 7)
      (world0\<lparr>active_connections := [1, 2, 3]\<rparr>)) = [1, 3] \<and>
   send_log (broadcast (\<lambda>c. c \<noteq> 2) (DataChange ''list_created'' ''Team'' 7)
      (world0\<lparr>active_connections := [1, 2, 3]\<rparr>)) =
     [(1, DataChange ''list_created'' ''Team'' 7, True),
      (2, DataChange ''list_created'' ''Team'' 7, False),
      (3, DataChange ''list_created'' ''Team'' 7, True)]"
  using broadcast_isolates_failures [of "\<lambda>c. c \<noteq> 2" "DataChange ''list_created'' ''Team'' 7"
      "world0\<lparr>active_connections := [1, 2, 3]\<rparr>"]
  by (simp add: world0_def)

section \<open>The log buffer\<close>

lemma get_logs_add_log:
  "fst (get_logs (snd (add_log clk act st det w))) =
     take 100 (fst (add_log clk act st det w) # fst (get_logs w))"
  by (simp add: get_logs_def add_log_def load_data_def save_data_def now_def
      ensure_storage_exists_def Let_def split: option.splits)

lemma take_append_take: "take n (xs @ take n ys) = take n (xs @ ys)"
  by (simp add: min_def)

lemma get_logs_add_logs:
  "es \<noteq> [] \<Longrightarrow> fst (get_logs (snd (add_logs clk es w))) =
     take 100 (rev (fst (add_logs clk es w)) @ fst (get_logs w))"
proof (induction es arbitrary: w)
  case Nil
  then show ?case by simp
next
  case (Cons e es)
  obtain act st det where e: "e = (act, st, det)" by (cases e) auto
  obtain log w1 where a: "add_log clk act st det w = (log, w1)" by (cases "add_log clk act st det w") auto
  obtain more w2 where b: "add_logs clk es w1 = (more, w2)" by (cases "add_logs clk es w1") auto
  have one: "fst (get_logs w1) = take 100 (log # fst (get_logs w))"
    using get_logs_add_log [of clk act st det w] a by simp
  show ?case
  proof (cases "es = []")
    case True
    then show ?thesis using e a b one by simp
  next
    case False
    from Cons.IH [OF False, of w1] b
    have "fst (get_logs w2) = take 100 (rev more @ fst (get_logs w1))" by simp
    also have "\<dots> = take 100 (rev more @ log # fst (get_logs w))"
      unfolding one by (rule take_append_take)
    finally show ?thesis using e a b by simp
  qed
qed

lemma add_logs_entries:
  "map (\<lambda>l. (action l, status l, details l)) (fst (add_logs clk es w)) = es"
proof (induction es arbitrary: w)
  case Nil
  show ?case by simp
next
  case (Cons e es)
  obtain act st det where e: "e = (act, st, det)" by (cases e) auto
  have "action (fst (add_log clk act st det w)) = act
      \<and> status (fst (add_log clk act st det w)) = st
      \<and> details (fst (add_log clk act st det w)) = det"
    by (simp add: add_log_def split_beta Let_def)
  then show ?case using Cons.IH [of "snd (add_log clk act st det w)"]
    by (simp add: e split_beta)
qed

lemma length_add_logs: "length (fst (add_logs clk es w)) = length es"
  using add_logs_entries [of clk es w, THEN arg_cong, of length] by simp

text \<open>
  Claim C4. After \<open>add_log\<close> the stored log is the new entry followed by the old
  entries, cut at 100: its length is \<open>min (old + 1) 100\<close>, the new entry (with the
  given action, status and details) is first, and the oldest entry falls off a full
  buffer. After more than 100 appends the buffer holds exactly the last 100 entries
  written, the most recent first.
\<close>

theorem add_log_ring_buffer:
  "fst (get_logs (snd (add_log clk act st det w))) =
      take 100 (fst (add_log clk act st det w) # fst (get_logs w)) \<and>
   length (fst (get_logs (snd (add_log clk act st det w)))) =
      min (length (fst (get_logs w)) + 1) 100 \<and>
   action (fst (add_log clk act st det w)) = act \<and>
   status (fst (add_log clk act st det w)) = st \<and>
   details (fst (add_log clk act st det w)) = det \<and>
   map (\<lambda>l. (action l, status l, details l)) (fst (add_logs clk es w)) = es \<and>
   (100 < length es \<longrightarrow>
      fst (get_logs (snd (add_logs clk es w))) = take 100 (rev (fst (add_logs clk es w))) \<and>
      length (fst (get_logs (snd (add_logs clk es w)))) = 100)"
proof -
  have one: "fst (get_logs (snd (add_log clk act st det w))) =
      take 100 (fst (add_log clk act st det w) # fst (get_logs w))"
    by (rule get_logs_add_log)
  have len: "length (fst (get_logs (snd (add_log clk act st det w)))) =
      min (length (fst (get_logs w)) + 1) 100"
    unfolding one by (simp add: min_def)
  have fields: "action (fst (add_log clk act st det w)) = act \<and>
      status (fst (add_log clk act st det w)) = st \<and>
      details (fst (add_log clk act st det w)) = det"
    by (simp add: add_log_def split_beta Let_def)
  have many: "fst (get_logs (snd (add_logs clk es w))) = take 100 (rev (fst (add_logs clk es w))) \<and>
      length (fst (get_logs (snd (add_logs clk es w)))) = 100" if "100 < length es"
  proof -
    from that have "es \<noteq> []" by auto
    then have "fst (get_logs (snd (add_logs clk es w))) =
        take 100 (rev (fst (add_logs clk es w)) @ fst (get_logs w))"
      by (rule get_logs_add_logs)
    moreover have "100 \<le> length (rev (fst (add_logs clk es w)))"
      using that by (simp add: length_add_logs)
    ultimately show ?thesis by simp
  qed
  show ?thesis using one len fields many add_logs_entries [of clk es w] by blast
qed

theorem add_log_ring_buffer_witness:
  "100 < length (replicate 101 (''Synced'', ''success'', None :: string option)) \<and>
   fst (get_logs (snd (add_logs clock0 (replicate 101 (''Synced'', ''success'', None)) world0))) =
     take 100 (rev (fst (add_logs clock0 (replicate 101 (''Synced'', ''success'', None)) world0))) \<and>
   length (fst (get_logs (snd (add_logs clock0 (replicate 101 (''Synced'', ''success'', None)) world0)))) = 100"
proof -
  have h: "100 < length (replicate 101 (''Synced'', ''success'', None :: string option))"
    by simp
  show ?thesis
    using h add_log_ring_buffer [of clock0 "''Synced''" "''success''" None world0
        "replicate 101 (''Synced'', ''success'', None)"]
    by blast
qed

lemma get_logs_clear_logs:
  "fst (get_logs (snd (clear_logs clk w))) =
     take 100 (fst (add_log clk ''Logs cleared'' ''success'' None w) # fst (get_logs w))"
  by (simp add: clear_logs_def split_beta get_logs_add_log)

text \<open>
  Claim C7, on a store that already holds one log entry: \<open>clear_logs\<close> only appends
  its own entry, so the stored log then has two entries, the trace entry and the old one.
\<close>

theorem clear_logs_keeps_old_entries:
  "fst (get_logs (snd (add_log clock0 ''Created list'' ''success'' None world0))) =
     [\<lparr>log_id = 1000, timestamp = 1001, action = ''Created list'', status = ''success'',
       details = None\<rparr>] \<and>
   fst (get_logs (snd (clear_logs clock0
      (snd (add_log clock0 ''Created list'' ''success'' None world0))))) =
     [\<lparr>log_id = 1002, timestamp = 1003, action = ''Logs cleared'', status = ''success'',
       details = None\<rparr>,
      \<lparr>log_id = 1000, timestamp = 1001, action = ''Created list'', status = ''success'',
       details = None\<rparr>]"
  by (simp add: clear_logs_def add_log_def get_logs_def load_data_def save_data_def now_def
      ensure_storage_exists_def empty_document_def world0_def clock0_def split_beta Let_def)

section \<open>Deleting a list\<close>

text \<open>
  Claim C8. When no stored list has the given id, \<open>delete_list\<close> raises the 404
  \<open>HTTPException\<close> and the stored document is what it was (the file is created
  empty if it was missing): nothing is saved, logged or sent, and the number of stored
  lists is unchanged.
\<close>

theorem delete_list_not_found:
  "list_id' \<notin> lid ` set (fst (get_lists w)) \<Longrightarrow>
   fst (delete_list clk up list_id' w) = Inl (HTTPException 404 ''List not found'') \<and>
   fst (load_data (snd (delete_list clk up list_id' w))) = fst (load_data w) \<and>
   length (fst (get_lists (snd (delete_list clk up list_id' w)))) = length (fst (get_lists w)) \<and>
   snd (delete_list clk up list_id' w) = ensure_storage_exists w"
proof -
  assume a: "list_id' \<notin> lid ` set (fst (get_lists w))"
  then have f: "filter (\<lambda>l. lid l \<noteq> list_id') (fst (get_lists w)) = fst (get_lists w)"
    by (auto simp: filter_id_conv)
  have d: "delete_list clk up list_id' w =
      (Inl (HTTPException 404 ''List not found''), ensure_storage_exists w)"
    by (simp add: delete_list_def split_beta Let_def f snd_get_lists)
  have "fst (load_data (ensure_storage_exists w)) = fst (load_data w)"
    by (simp add: fst_load_data storage_file_ensure)
  moreover have "fst (get_lists (ensure_storage_exists w)) = fst (get_lists w)"
    by (simp add: fst_get_lists storage_file_ensure)
  ultimately show ?thesis using d by simp
qed

theorem delete_list_not_found_witness:
  "''L9'' \<notin> lid ` set (fst (get_lists (stored [list_dict (team [bob_plain])]))) \<and>
   fst (delete_list clock0 (\<lambda>c. True) ''L9'' (stored [list_dict (team [bob_plain])])) =
     Inl (HTTPException 404 ''List not found'') \<and>
   fst (get_lists (snd (delete_list clock0 (\<lambda>c. True) ''L9'' (stored [list_dict (team [bob_plain])])))) =
     [list_dict (team [bob_plain])]"
proof -
  have h: "''L9'' \<notin> lid ` set (fst (get_lists (stored [list_dict (team [bob_plain])])))"
    by (simp add: ex_defs fst_get_lists)
  have g: "fst (get_lists (stored [list_dict (team [bob_plain])])) = [list_dict (team [bob_plain])]"
    by (simp add: stored_def fst_get_lists)
  from delete_list_not_found [OF h, of clock0 "\<lambda>c. True"]
  have "fst (delete_list clock0 (\<lambda>c. True) ''L9'' (stored [list_dict (team [bob_plain])])) =
         Inl (HTTPException 404 ''List not found'')"
    and "fst (load_data (snd (delete_list clock0 (\<lambda>c. True) ''L9'' (stored [list_dict (team [bob_plain])])))) =
         fst (load_data (stored [list_dict (team [bob_plain])]))"
    by blast+
  then show ?thesis using h g by (simp add: get_lists_def split_beta)
qed

section \<open>Common members\<close>

text \<open>
  Claim C6. A list is a source list unless one of its two flags, \<open>is_auto_generated\<close>
  or \<open>isAutoGenerated\<close>, is set. With fewer than 2 source lists the response is the
  successful one with no common member, the explanatory message, and the number of
  source lists found.
\<close>

theorem too_few_source_lists:
  "length (filter (\<lambda>l. is_auto_generated l \<noteq> Some True \<and> isAutoGenerated l \<noteq> Some True)
       (fst (get_lists w))) < 2 \<Longrightarrow>
   fst (get_common_members w) =
     \<lparr>success = True, common_members = [],
      source_lists_count = length (filter (\<lambda>l. is_auto_generated l \<noteq> Some True \<and>
          isAutoGenerated l \<noteq> Some True) (fst (get_lists w))),
      message_text = Some ''Need at least 2 lists to find common members'',
      total_common = None\<rparr>"
proof -
  have "source_list = (\<lambda>l. is_auto_generated l \<noteq> Some True \<and> isAutoGenerated l \<noteq> Some True)"
    by (auto simp: source_list_def fun_eq_iff split: option.splits)
  then show "length (filter (\<lambda>l. is_auto_generated l \<noteq> Some True \<and> isAutoGenerated l \<noteq> Some True)
       (fst (get_lists w))) < 2 \<Longrightarrow> ?thesis"
    by (simp add: get_common_members_def split_beta Let_def)
qed

theorem too_few_source_lists_witness:
  "length (filter (\<lambda>l. is_auto_generated l \<noteq> Some True \<and> isAutoGenerated l \<noteq> Some True)
       (fst (get_lists (stored [list_dict (team [bob_plain]),
          (list_dict (friends [bob_plain]))\<lparr>isAutoGenerated := Some True\<rparr>])))) < 2 \<and>
   fst (get_common_members (stored [list_dict (team [bob_plain]),
          (list_dict (friends [bob_plain]))\<lparr>isAutoGenerated := Some True\<rparr>])) =
     \<lparr>success = True, common_members = [], source_lists_count = 1,
      message_text = Some ''Need at least 2 lists to find common members'',
      total_common = None\<rparr>"
proof -
  have h: "length (filter (\<lambda>l. is_auto_generated l \<noteq> Some True \<and> isAutoGenerated l \<noteq> Some True)
       (fst (get_lists (stored [list_dict (team [bob_plain]),
          (list_dict (friends [bob_plain]))\<lparr>isAutoGenerated := Some True\<rparr>])))) = 1"
    by (simp add: ex_defs fst_get_lists)
  show ?thesis
    using too_few_source_lists [of "stored [list_dict (team [bob_plain]),
          (list_dict (friends [bob_plain]))\<lparr>isAutoGenerated := Some True\<rparr>]"]
    unfolding h by simp
qed

text \<open>
  Claim C1, on two source lists holding one contact each, with the phones
  \<open>+1-555-123-4567\<close> and \<open>5551234567\<close>: the key of the first is its last 10
  characters \<open>5-123-4567\<close>, separators included, so the two keys differ and no common
  member is reported.
\<close>

theorem phone_key_keeps_separators:
  "member_key (contact_dict bob_dashed) = ''5-123-4567'' \<and>
   member_key (contact_dict bob_plain) = ''5551234567'' \<and>
   length (filter source_list (fst (get_lists (stored [list_dict (team [bob_dashed]), list_dict (friends [bob_plain])])))) = 2 \<and>
   common_members (fst (get_common_members
      (stored [list_dict (team [bob_dashed]), list_dict (friends [bob_plain])]))) = []"
  by (simp add: ex_defs agg_defs split_beta)

text \<open>
  Claim C10. With two source lists, a contact that occurs twice in the list Team and in
  no other list is reported as a common member with \<open>appears_in = 2\<close>, and its
  \<open>list_names\<close> is the single name Team.
\<close>

theorem duplicate_in_one_list_is_common:
  "length (filter source_list (fst (get_lists (stored [list_dict (team [bob_plain, bob_plain]), list_dict (friends [alice])])))) = 2 \<and>
   common_members (fst (get_common_members
      (stored [list_dict (team [bob_plain, bob_plain]), list_dict (friends [alice])]))) =
     [\<lparr>cm_member = contact_dict bob_plain, appears_in = 2, list_names = {''Team''}\<rparr>]"
  by (simp add: ex_defs agg_defs split_beta)


section \<open>The merge of a sync\<close>

lemma set_update_subset: "set (AList.update k v al) \<subseteq> insert (k, v) (set al)"
  by (induction al) auto

lemma keyed_update: "keyed al \<Longrightarrow> lid v = k \<Longrightarrow> keyed (AList.update k v al)"
  unfolding keyed_def using set_update_subset [of k v al]
  by (auto simp: distinct_update)

lemma keyed_fold_update: "keyed al \<Longrightarrow> keyed (fold (\<lambda>l m. AList.update (lid l) l m) ls al)"
  by (induction ls arbitrary: al) (simp_all add: keyed_update)

lemma keyed_sync_loop: "keyed al \<Longrightarrow> keyed (fst (sync_loop clk d ls al w))"
  by (induction ls arbitrary: al w) (simp_all add: keyed_update split_beta Let_def)

lemma sync_loop_other:
  "i \<notin> lid ` set ls \<Longrightarrow> map_of (fst (sync_loop clk d ls al w)) i = map_of al i"
  by (induction ls arbitrary: al w) (auto simp: split_beta Let_def update_conv')

lemma ticks_sync_loop: "ticks (snd (sync_loop clk d ls al w)) = ticks w + length ls"
  by (induction ls arbitrary: al w) (simp_all add: split_beta Let_def now_def)

lemma storage_file_sync_loop: "storage_file (snd (sync_loop clk d ls al w)) = storage_file w"
  by (induction ls arbitrary: al w) (simp_all add: split_beta Let_def now_def)

lemma sync_loop_last:
  "k < length ls \<Longrightarrow> \<forall>j. k < j \<and> j < length ls \<longrightarrow> lid (ls ! j) \<noteq> lid (ls ! k) \<Longrightarrow>
   map_of (fst (sync_loop clk d ls al w)) (lid (ls ! k)) =
     Some ((ls ! k)\<lparr>synced_from := Some d, synced_at := Some (clk (ticks w + k))\<rparr>)"
proof (induction ls arbitrary: al w k)
  case Nil
  then show ?case by simp
next
  case (Cons l ls)
  show ?case
  proof (cases k)
    case 0
    have "lid l \<notin> lid ` set ls"
    proof
      assume "lid l \<in> lid ` set ls"
      then obtain j where "j < length ls" "lid (ls ! j) = lid l"
        by (auto simp: in_set_conv_nth)
      with Cons.prems(2) [rule_format, of "Suc j"] 0 show False by simp
    qed
    then show ?thesis using 0
      by (simp add: split_beta Let_def sync_loop_other update_conv' now_def)
  next
    case (Suc k')
    have a: "k' < length ls" using Cons.prems(1) Suc by simp
    have b: "\<forall>j. k' < j \<and> j < length ls \<longrightarrow> lid (ls ! j) \<noteq> lid (ls ! k')"
    proof (intro allI impI)
      fix j assume "k' < j \<and> j < length ls"
      with Cons.prems(2) [rule_format, of "Suc j"] Suc show "lid (ls ! j) \<noteq> lid (ls ! k')"
        by simp
    qed
    show ?thesis using Cons.IH [OF a b] Suc
      by (simp add: split_beta Let_def now_def)
  qed
qed

lemma keyed_filter:
  "keyed al \<Longrightarrow> map_of al i = Some v \<Longrightarrow> filter (\<lambda>l. lid l = i) (map snd al) = [v]"
proof (induction al)
  case Nil
  then show ?case by simp
next
  case (Cons p al)
  obtain k x where p: "p = (k, x)" by (cases p)
  from Cons.prems(1) have kd: "keyed al" and kx: "lid x = k" and nk: "k \<notin> fst ` set al"
    and ids: "\<forall>(k', v') \<in> set al. lid v' = k'"
    by (auto simp: keyed_def p)
  show ?case
  proof (cases "k = i")
    case True
    have "filter (\<lambda>l. lid l = i) (map snd al) = []"
      using nk ids True by (force simp: filter_empty_conv)
    then show ?thesis using Cons.prems(2) True kx by (simp add: p)
  next
    case False
    then show ?thesis using Cons.IH [OF kd] Cons.prems(2) kx by (simp add: p)
  qed
qed

lemma keyed_distinct_ids: "keyed al \<Longrightarrow> distinct (map lid (map snd al))"
proof -
  assume k: "keyed al"
  then have "\<forall>p \<in> set al. lid (snd p) = fst p"
    by (auto simp: keyed_def)
  then have eq: "map lid (map snd al) = map fst al"
    by (induction al) simp_all
  from k have "distinct (map fst al)" by (simp add: keyed_def)
  then show ?thesis by (simp only: eq)
qed

lemma keyed_Nil: "keyed []"
  by (simp add: keyed_def)

lemma get_lists_sync:
  "fst (get_lists (snd (sync_from_android clk d ls w))) =
     map snd (fst (sync_loop clk d ls
       (fold (\<lambda>l m. AList.update (lid l) l m) (fst (get_lists w)) [])
       (ensure_storage_exists w)))"
  by (simp add: sync_from_android_def split_beta Let_def fst_get_lists storage_file_save_data
      fst_load_data snd_load_data)

lemma ticks_ensure: "ticks (ensure_storage_exists w) = ticks w"
  by (simp add: ensure_storage_exists_def split: option.splits)

lemma ticks_sync: "ticks (snd (sync_from_android clk d ls w)) = ticks w + length ls + 1"
  by (simp add: sync_from_android_def split_beta Let_def save_data_def ensure_storage_exists_def
      snd_load_data now_def ticks_sync_loop split: option.splits)

text \<open>
  Claim C2. For every world and every sync, take an incoming list that no later list of
  the same call shares its id with (the last write for that id). Afterwards exactly one
  stored list has that id, whether or not one was stored before: the incoming list with
  \<open>synced_from\<close> set to the device and \<open>synced_at\<close> set to the clock reading taken
  when it was processed. In particular, after two syncs of the same id the one entry for
  that id is the second list, stamped by the second sync.
\<close>

theorem sync_last_write_wins:
  "(k < length new_lists \<and>
    (\<forall>j. k < j \<and> j < length new_lists \<longrightarrow> lid (new_lists ! j) \<noteq> lid (new_lists ! k)) \<longrightarrow>
    filter (\<lambda>l. lid l = lid (new_lists ! k))
        (fst (get_lists (snd (sync_from_android clk device_id new_lists w)))) =
      [(new_lists ! k)\<lparr>synced_from := Some device_id,
                        synced_at := Some (clk (ticks w + k))\<rparr>]) \<and>
   (lid second = lid first \<longrightarrow>
    filter (\<lambda>l. lid l = lid first)
        (fst (get_lists (snd (sync_from_android clk device2 [second]
           (snd (sync_from_android clk device1 [first] w)))))) =
      [second\<lparr>synced_from := Some device2, synced_at := Some (clk (ticks w + 2))\<rparr>])"
proof -
  have main: "filter (\<lambda>l. lid l = lid (ls ! k))
        (fst (get_lists (snd (sync_from_android clk d ls w')))) =
      [(ls ! k)\<lparr>synced_from := Some d, synced_at := Some (clk (ticks w' + k))\<rparr>]"
    if "k < length ls" "\<forall>j. k < j \<and> j < length ls \<longrightarrow> lid (ls ! j) \<noteq> lid (ls ! k)"
    for ls k d w'
  proof -
    let ?al = "fst (sync_loop clk d ls
       (fold (\<lambda>l m. AList.update (lid l) l m) (fst (get_lists w')) [])
       (ensure_storage_exists w'))"
    have "keyed ?al"
      by (intro keyed_sync_loop keyed_fold_update keyed_Nil)
    moreover have "map_of ?al (lid (ls ! k)) =
        Some ((ls ! k)\<lparr>synced_from := Some d, synced_at := Some (clk (ticks w' + k))\<rparr>)"
      using sync_loop_last [OF that, of clk d _ "ensure_storage_exists w'"]
      by (simp add: ticks_ensure)
    ultimately show ?thesis
      unfolding get_lists_sync by (rule keyed_filter)
  qed
  have twice: "filter (\<lambda>l. lid l = lid first)
        (fst (get_lists (snd (sync_from_android clk device2 [second]
           (snd (sync_from_android clk device1 [first] w)))))) =
      [second\<lparr>synced_from := Some device2, synced_at := Some (clk (ticks w + 2))\<rparr>]"
    if "lid second = lid first"
  proof -
    have p1: "0 < length [second]" by simp
    have p2: "\<forall>j. 0 < j \<and> j < length [second] \<longrightarrow> lid ([second] ! j) \<noteq> lid ([second] ! 0)"
      by auto
    show ?thesis
      using main [OF p1 p2, of device2 "snd (sync_from_android clk device1 [first] w)"] that
      by (simp add: ticks_sync)
  qed
  show ?thesis using main [of k new_lists device_id w] twice by blast
qed

theorem sync_last_write_wins_witness:
  "filter (\<lambda>l. lid l = ''L1'')
      (fst (get_lists (snd (sync_from_android clock0 ''A''
         [list_dict (team [bob_plain]), list_dict (team [alice])] world0)))) =
     [(list_dict (team [alice]))\<lparr>synced_from := Some ''A'', synced_at := Some 1001\<rparr>] \<and>
   filter (\<lambda>l. lid l = ''L1'')
      (fst (get_lists (snd (sync_from_android clock0 ''B'' [list_dict (team [alice])]
         (snd (sync_from_android clock0 ''A'' [list_dict (team [bob_plain])] world0)))))) =
     [(list_dict (team [alice]))\<lparr>synced_from := Some ''B'', synced_at := Some 1002\<rparr>]"
proof -
  let ?ls = "[list_dict (team [bob_plain]), list_dict (team [alice])]"
  have h1: "1 < length ?ls" by simp
  have h2: "\<forall>j. 1 < j \<and> j < length ?ls \<longrightarrow> lid (?ls ! j) \<noteq> lid (?ls ! 1)" by auto
  have h3: "lid (list_dict (team [alice])) = lid (list_dict (team [bob_plain]))"
    by (simp add: list_dict_def team_def)
  have i1: "lid (?ls ! 1) = ''L1''" by (simp add: list_dict_def team_def)
  have i2: "lid (list_dict (team [bob_plain])) = ''L1''" by (simp add: list_dict_def team_def)
  have t: "ticks world0 = 0" by (simp add: world0_def)
  note inst = sync_last_write_wins [of 1 ?ls clock0 "''A''" world0
      "list_dict (team [alice])" "list_dict (team [bob_plain])" "''B''" "''A''"]
  from inst h1 h2 have a: "filter (\<lambda>l. lid l = lid (?ls ! 1))
        (fst (get_lists (snd (sync_from_android clock0 ''A'' ?ls world0)))) =
      [(?ls ! 1)\<lparr>synced_from := Some ''A'', synced_at := Some (clock0 (ticks world0 + 1))\<rparr>]"
    by blast
  from inst h3 have b: "filter (\<lambda>l. lid l = lid (list_dict (team [bob_plain])))
        (fst (get_lists (snd (sync_from_android clock0 ''B'' [list_dict (team [alice])]
           (snd (sync_from_android clock0 ''A'' [list_dict (team [bob_plain])] world0)))))) =
      [(list_dict (team [alice]))\<lparr>synced_from := Some ''B'',
          synced_at := Some (clock0 (ticks world0 + 2))\<rparr>]"
    by blast
  show ?thesis
    using a b unfolding i1 i2 t by (simp add: clock0_def)
qed

section \<open>Uniqueness of the stored ids\<close>

lemma get_lists_ensure: "fst (get_lists (ensure_storage_exists w)) = fst (get_lists w)"
  by (simp add: fst_get_lists storage_file_ensure)

lemma get_lists_snd_get_lists: "fst (get_lists (snd (get_lists w))) = fst (get_lists w)"
  by (simp add: snd_get_lists get_lists_ensure)

lemma get_lists_save_lists: "fst (get_lists (save_lists clk ls w)) = ls"
  by (simp add: fst_get_lists storage_file_save_lists)

lemma get_lists_add_log: "fst (get_lists (snd (add_log clk act st det w))) = fst (get_lists w)"
  by (simp add: fst_get_lists storage_file_add_log)

lemma get_lists_notify_data_change:
  "fst (get_lists (notify_data_change clk up act det w)) = fst (get_lists w)"
  by (simp add: fst_get_lists storage_file_notify_data_change)

lemma get_lists_create_list:
  "fst (get_lists (snd (create_list clk up b w))) = fst (get_lists w) @ [list_dict b]"
  unfolding create_list_def split_beta Let_def snd_conv
  by (simp only: get_lists_notify_data_change get_lists_add_log get_lists_save_lists)

lemma filter_length_same: "length (filter P xs) = length xs \<Longrightarrow> filter P xs = xs"
proof (induction xs)
  case Nil
  show ?case by simp
next
  case (Cons x xs)
  have le: "length (filter P xs) \<le> length xs" by (rule length_filter_le)
  show ?case
  proof (cases "P x")
    case True
    then show ?thesis using Cons by simp
  next
    case False
    then have "length (filter P xs) = Suc (length xs)" using Cons.prems by simp
    with le show ?thesis by simp
  qed
qed

lemma get_lists_delete_list:
  "fst (get_lists (snd (delete_list clk up i w))) = filter (\<lambda>l. lid l \<noteq> i) (fst (get_lists w))"
proof (cases "length (filter (\<lambda>l. lid l \<noteq> i) (fst (get_lists w))) = length (fst (get_lists w))")
  case True
  then have same: "filter (\<lambda>l. lid l \<noteq> i) (fst (get_lists w)) = fst (get_lists w)"
    by (rule filter_length_same)
  have "snd (delete_list clk up i w) = snd (get_lists w)"
    unfolding delete_list_def split_beta Let_def using True by simp
  then show ?thesis by (simp only: get_lists_snd_get_lists same)
next
  case False
  have "snd (delete_list clk up i w) =
      notify_data_change clk up ''list_deleted''
        (case (case filter (\<lambda>l. lid l = i) (fst (get_lists w)) of [] \<Rightarrow> None | l # rest \<Rightarrow> lname l) of
           None \<Rightarrow> i | Some n \<Rightarrow> if n = [] then i else n)
        (snd (add_log clk (''Deleted list '' @ i) ''success'' None
           (save_lists clk (filter (\<lambda>l. lid l \<noteq> i) (fst (get_lists w))) (snd (get_lists w)))))"
    unfolding delete_list_def split_beta Let_def using False by simp
  then show ?thesis
    by (simp only: get_lists_notify_data_change get_lists_add_log get_lists_save_lists)
qed

lemma distinct_ids_sync:
  "distinct (map lid (fst (get_lists (snd (sync_from_android clk d ls w)))))"
  unfolding get_lists_sync
  by (intro keyed_distinct_ids keyed_sync_loop keyed_fold_update keyed_Nil)

text \<open>
  Claim C5, as the code has it. After a sync the stored ids are pairwise distinct,
  whatever the store held before. \<open>delete_list\<close> keeps distinct ids distinct.
  \<open>create_list\<close> appends without looking at the stored ids: from a store with distinct
  ids, the ids are distinct afterwards exactly when the new id was not stored yet.
\<close>

theorem ids_unique_unless_created_twice:
  "distinct (map lid (fst (get_lists (snd (sync_from_android clk device_id new_lists w))))) \<and>
   (distinct (map lid (fst (get_lists w))) \<longrightarrow>
      distinct (map lid (fst (get_lists (snd (delete_list clk up list_id' w)))))) \<and>
   (distinct (map lid (fst (get_lists w))) \<longrightarrow>
      distinct (map lid (fst (get_lists (snd (create_list clk up b w))))) =
        (list_id b \<notin> lid ` set (fst (get_lists w))))"
proof (intro conjI impI)
  show "distinct (map lid (fst (get_lists (snd (sync_from_android clk device_id new_lists w)))))"
    by (rule distinct_ids_sync)
next
  assume "distinct (map lid (fst (get_lists w)))"
  then show "distinct (map lid (fst (get_lists (snd (delete_list clk up list_id' w)))))"
    unfolding get_lists_delete_list by (rule distinct_map_filter)
next
  assume "distinct (map lid (fst (get_lists w)))"
  then show "distinct (map lid (fst (get_lists (snd (create_list clk up b w))))) =
        (list_id b \<notin> lid ` set (fst (get_lists w)))"
    unfolding get_lists_create_list by (simp add: list_dict_def)
qed

text \<open>
  Claim C5 as stated fails: creating the same list twice from the empty world gives a
  store with two lists of the same id, so uniqueness is not an invariant of every
  reachable store.
\<close>

theorem ids_unique_counterexample:
  "\<not> distinct (map lid (fst (get_lists (snd (create_list clock0 (\<lambda>c. True) (team [bob_plain])
      (snd (create_list clock0 (\<lambda>c. True) (team [bob_plain]) world0)))))))"
  unfolding get_lists_create_list by simp

theorem ids_unique_unless_created_twice_witness:
  "distinct (map lid (fst (get_lists (stored [list_dict (team [bob_plain])])))) \<and>
   list_id (friends [alice]) \<notin> lid ` set (fst (get_lists (stored [list_dict (team [bob_plain])]))) \<and>
   distinct (map lid (fst (get_lists (snd (delete_list clock0 (\<lambda>c. True) ''L1''
      (stored [list_dict (team [bob_plain])])))))) \<and>
   distinct (map lid (fst (get_lists (snd (create_list clock0 (\<lambda>c. True) (friends [alice])
      (stored [list_dict (team [bob_plain])]))))))"
  (is "?H1 \<and> ?H2 \<and> ?D \<and> ?C")
proof -
  have h1: ?H1
    by (simp add: stored_def fst_get_lists)
  have h2: ?H2
    by (simp add: ex_defs fst_get_lists)
  note inst = ids_unique_unless_created_twice [of clock0 "''A''" "[]"
        "stored [list_dict (team [bob_plain])]" "\<lambda>c. True" "''L1''" "friends [alice]"]
  from inst h1 have d: ?D
    by (elim conjE) (erule (1) mp)
  from inst h1 have "?C = ?H2"
    by (elim conjE) (erule (1) mp)
  with h2 have c: ?C
    by (rule iffD2 [rotated])
  from h1 h2 d c show ?thesis by (intro conjI)
qed


section \<open>The common members reported\<close>

lemma count_members_flat_aux:
  "fold (\<lambda>lst mc. fold (count_member (get_name lst)) (get_members lst) mc) ls mc =
     fold (\<lambda>(n, m). count_member n m) (occurrences ls) mc"
  by (induction ls arbitrary: mc) (simp_all add: occurrences_def fold_map comp_def)

lemma count_members_flat:
  "count_members ls = fold (\<lambda>(n, m). count_member n m) (occurrences ls) []"
  by (simp add: count_members_def count_members_flat_aux)

lemma map_of_count_member:
  "map_of (count_member n m mc) k =
     (if member_key m \<noteq> [] \<and> k = member_key m
      then Some (case map_of mc k of
                   None \<Rightarrow> \<lparr>info_member = m, count = 1, in_lists = [n]\<rparr>
                 | Some i \<Rightarrow> i\<lparr>count := count i + 1, in_lists := in_lists i @ [n]\<rparr>)
      else map_of mc k)"
  by (simp add: count_member_def Let_def map_of_map_entry update_conv' split: option.splits)

lemma distinct_count_member:
  "distinct (map fst mc) \<Longrightarrow> distinct (map fst (count_member n m mc))"
  by (simp add: count_member_def Let_def distinct_map_entry distinct_update)

lemma tally_snoc:
  "tally (xs @ [(n, m)]) k =
     (if member_key m \<noteq> [] \<and> k = member_key m
      then Some (case tally xs k of
                   None \<Rightarrow> \<lparr>info_member = m, count = 1, in_lists = [n]\<rparr>
                 | Some i \<Rightarrow> i\<lparr>count := count i + 1, in_lists := in_lists i @ [n]\<rparr>)
      else tally xs k)"
  by (cases "filter (\<lambda>(n, m). member_key m = k) xs") (auto simp: tally_def split: list.splits)

lemma map_of_fold_count_member:
  "map_of (fold (\<lambda>(n, m). count_member n m) xs []) k = tally xs k"
proof (induction xs arbitrary: k rule: rev_induct)
  case Nil
  show ?case by (simp add: tally_def)
next
  case (snoc x xs)
  obtain n m where x: "x = (n, m)" by (cases x)
  show ?case
    by (simp add: x map_of_count_member tally_snoc snoc.IH)
qed

lemma distinct_fold_count_member:
  "distinct (map fst (fold (\<lambda>(n, m). count_member n m) xs []))"
proof (induction xs rule: rev_induct)
  case Nil
  show ?case by simp
next
  case (snoc x xs)
  then show ?case by (simp add: split_beta distinct_count_member)
qed

lemma tally_Some:
  "tally xs k = Some i \<Longrightarrow>
     k \<noteq> [] \<and> member_key (info_member i) = k \<and>
     count i = length (filter (\<lambda>(n, m). member_key m = k) xs) \<and>
     in_lists i = map fst (filter (\<lambda>(n, m). member_key m = k) xs)"
proof -
  assume t: "tally xs k = Some i"
  then obtain n m rest where f: "filter (\<lambda>(n, m). member_key m = k) xs = (n, m) # rest"
    by (auto simp: tally_def split: list.splits if_splits)
  then have "(n, m) \<in> set (filter (\<lambda>(n, m). member_key m = k) xs)" by simp
  then have "member_key m = k" by simp
  with t f show ?thesis by (auto simp: tally_def split: if_splits)
qed

lemma tally_None:
  "tally xs k = None \<Longrightarrow> k = [] \<or> filter (\<lambda>(n, m). member_key m = k) xs = []"
  by (auto simp: tally_def split: list.splits if_splits)

lemma tally_present:
  "k \<noteq> [] \<Longrightarrow> filter (\<lambda>(n, m). member_key m = k) xs \<noteq> [] \<Longrightarrow> \<exists>i. tally xs k = Some i"
  by (auto simp: tally_def split: list.splits)

lemma distinct_map_insort_key:
  "distinct (map h (insort_key g x xs)) = distinct (map h (x # xs))"
  by (induction xs) (auto simp: set_insort_key)

lemma distinct_map_sort_key:
  "distinct (map h (sort_key g xs)) = distinct (map h xs)"
  by (induction xs) (simp_all add: distinct_map_insort_key)

lemma count_members_entry:
  "(k, i) \<in> set (count_members ls) \<longleftrightarrow> tally (occurrences ls) k = Some i"
  unfolding count_members_flat
  using map_of_eq_Some_iff [OF distinct_fold_count_member, of "occurrences ls" k i]
  by (simp add: map_of_fold_count_member)

lemma count_members_entry_facts:
  "(k, i) \<in> set (count_members ls) \<Longrightarrow>
     k \<noteq> [] \<and> member_key (info_member i) = k \<and> count i = occurrence_count k ls \<and>
     set (in_lists i) = names_of_key k ls"
  using tally_Some [of "occurrences ls" k i]
  by (simp add: count_members_entry occurrence_count_def names_of_key_def)

lemma count_members_keys:
  "fst ` {p \<in> set (count_members ls). 2 \<le> count (snd p)} =
     {k. k \<noteq> [] \<and> 2 \<le> occurrence_count k ls}"
proof (intro set_eqI iffI)
  fix k
  assume "k \<in> fst ` {p \<in> set (count_members ls). 2 \<le> count (snd p)}"
  then obtain i where "(k, i) \<in> set (count_members ls)" "2 \<le> count i" by auto
  then show "k \<in> {k. k \<noteq> [] \<and> 2 \<le> occurrence_count k ls}"
    using count_members_entry_facts [of k i ls] by simp
next
  fix k
  assume "k \<in> {k. k \<noteq> [] \<and> 2 \<le> occurrence_count k ls}"
  then have k: "k \<noteq> []" and c: "2 \<le> occurrence_count k ls" by simp_all
  from c have "filter (\<lambda>(n, m). member_key m = k) (occurrences ls) \<noteq> []"
    by (auto simp: occurrence_count_def)
  with k obtain i where t: "tally (occurrences ls) k = Some i"
    using tally_present by blast
  then have e: "(k, i) \<in> set (count_members ls)" by (simp add: count_members_entry)
  then have "count i = occurrence_count k ls"
    using count_members_entry_facts by blast
  with c e have "(k, i) \<in> {p \<in> set (count_members ls). 2 \<le> count (snd p)}" by simp
  then show "k \<in> fst ` {p \<in> set (count_members ls). 2 \<le> count (snd p)}" by force
qed

lemma common_members_eq:
  "2 \<le> length (filter source_list (fst (get_lists w))) \<Longrightarrow>
   fst (get_common_members w) =
     \<lparr>success = True,
      common_members = sort_key (\<lambda>x. - int (appears_in x))
        (map (\<lambda>(key, i). \<lparr>cm_member = info_member i, appears_in = count i,
                            list_names = set (in_lists i)\<rparr>)
          (filter (\<lambda>(key, i). 2 \<le> count i)
             (count_members (filter source_list (fst (get_lists w)))))),
      source_lists_count = length (filter source_list (fst (get_lists w))),
      message_text = None,
      total_common = Some (length
          (filter (\<lambda>(key, i). 2 \<le> count i)
             (count_members (filter source_list (fst (get_lists w))))))\<rparr>"
  by (simp add: get_common_members_def split_beta Let_def)

text \<open>
  Claim C9. The identity key of a member is \<open>member_key\<close>: the last 10 characters of
  a non-empty phone, otherwise the name lowered and stripped as Python does it. With at
  least 2 source lists, the reported members stand for exactly the
  non-empty identity keys that occur at least twice in the source lists, each key once;
  every reported member carries in \<open>appears_in\<close> the occurrence count of its key and in
  \<open>list_names\<close> the set of names of the lists the key appeared in; and the sequence is
  in descending order of \<open>appears_in\<close>.
\<close>

theorem common_members_exact:
  assumes two: "2 \<le> length (filter source_list (fst (get_lists w)))"
  shows "distinct (map (\<lambda>c. member_key (cm_member c)) (common_members (fst (get_common_members w)))) \<and>
    set (map (\<lambda>c. member_key (cm_member c)) (common_members (fst (get_common_members w)))) =
      {k. k \<noteq> [] \<and> 2 \<le> occurrence_count k (filter source_list (fst (get_lists w)))} \<and>
    (\<forall>c \<in> set (common_members (fst (get_common_members w))).
        appears_in c =
          occurrence_count (member_key (cm_member c)) (filter source_list (fst (get_lists w))) \<and>
        list_names c =
          names_of_key (member_key (cm_member c)) (filter source_list (fst (get_lists w)))) \<and>
    sorted_wrt (\<lambda>a b. appears_in b \<le> appears_in a) (common_members (fst (get_common_members w)))"
proof -
  let ?src = "filter source_list (fst (get_lists w))"
  let ?mc = "count_members ?src"
  let ?big = "filter (\<lambda>(key, i). 2 \<le> count i) ?mc"
  let ?mk = "\<lambda>(key, i). \<lparr>cm_member = info_member i, appears_in = count i,
                            list_names = set (in_lists i)\<rparr>"
  let ?found = "map ?mk ?big"
  let ?cms = "common_members (fst (get_common_members w))"
  have cms: "?cms = sort_key (\<lambda>x. - int (appears_in x)) ?found"
    using common_members_eq [OF two] by simp
  have facts: "k \<noteq> [] \<and> member_key (info_member i) = k \<and> count i = occurrence_count k ?src \<and>
      set (in_lists i) = names_of_key k ?src" if "(k, i) \<in> set ?big" for k i
    using that count_members_entry_facts [of k i ?src] by simp
  have keys: "map (\<lambda>c. member_key (cm_member c)) ?found = map fst ?big"
    using facts by (auto simp: split_beta)
  have dist_mc: "distinct (map fst ?mc)"
    unfolding count_members_flat by (rule distinct_fold_count_member)
  have d: "distinct (map (\<lambda>c. member_key (cm_member c)) ?cms)"
    unfolding cms distinct_map_sort_key keys using dist_mc by (rule distinct_map_filter)
  have "set (map (\<lambda>c. member_key (cm_member c)) ?cms) =
      set (map (\<lambda>c. member_key (cm_member c)) ?found)"
    unfolding cms by (simp only: set_map set_sort)
  also have "\<dots> = fst ` {p \<in> set ?mc. 2 \<le> count (snd p)}"
    unfolding keys by (auto simp: split_beta)
  also have "\<dots> = {k. k \<noteq> [] \<and> 2 \<le> occurrence_count k ?src}"
    by (rule count_members_keys)
  finally have s: "set (map (\<lambda>c. member_key (cm_member c)) ?cms) =
      {k. k \<noteq> [] \<and> 2 \<le> occurrence_count k ?src}" .
  have a: "\<forall>c \<in> set ?cms. appears_in c = occurrence_count (member_key (cm_member c)) ?src \<and>
        list_names c = names_of_key (member_key (cm_member c)) ?src"
  proof
    fix c assume "c \<in> set ?cms"
    then have "c \<in> set ?found" unfolding cms by simp
    then obtain k i where ki: "(k, i) \<in> set ?big" and c: "c = ?mk (k, i)" by auto
    from facts [OF ki] c
    show "appears_in c = occurrence_count (member_key (cm_member c)) ?src \<and>
        list_names c = names_of_key (member_key (cm_member c)) ?src"
      by simp
  qed
  have "sorted (map (\<lambda>x. - int (appears_in x)) ?cms)"
    unfolding cms by (rule sorted_sort_key)
  then have o: "sorted_wrt (\<lambda>a b. appears_in b \<le> appears_in a) ?cms"
    by (simp add: sorted_map)
  from d s a o show ?thesis by (intro conjI)
qed

text \<open>
  The keys of three contacts: the last 10 characters of a phone, and for the two contacts
  without a phone the same lowered and stripped name.
\<close>

lemma key_bob_plain: "member_key (contact_dict bob_plain) = ''5551234567''"
  by code_simp

lemma key_jose_upper: "member_key (contact_dict jose_upper) = ''jos'' @ [CHR 0xE9]"
  by code_simp

lemma key_jose_padded: "member_key (contact_dict jose_padded) = ''jos'' @ [CHR 0xE9]"
  by code_simp

theorem common_members_exact_witness:
  "2 \<le> length (filter source_list (fst (get_lists
      (stored [list_dict (team [bob_plain, jose_upper]),
         list_dict (friends [bob_plain, jose_padded])])))) \<and>
   common_members (fst (get_common_members
      (stored [list_dict (team [bob_plain, jose_upper]),
         list_dict (friends [bob_plain, jose_padded])]))) =
     [\<lparr>cm_member = contact_dict bob_plain, appears_in = 2,
       list_names = {''Team'', ''Friends''}\<rparr>,
      \<lparr>cm_member = contact_dict jose_upper, appears_in = 2,
       list_names = {''Team'', ''Friends''}\<rparr>] \<and>
   set (map (\<lambda>c. member_key (cm_member c)) (common_members (fst (get_common_members
      (stored [list_dict (team [bob_plain, jose_upper]),
         list_dict (friends [bob_plain, jose_padded])]))))) =
     {k. k \<noteq> [] \<and> 2 \<le> occurrence_count k (filter source_list (fst (get_lists
      (stored [list_dict (team [bob_plain, jose_upper]),
         list_dict (friends [bob_plain, jose_padded])]))))} \<and>
   sorted_wrt (\<lambda>a b. appears_in b \<le> appears_in a) (common_members (fst (get_common_members
      (stored [list_dict (team [bob_plain, jose_upper]),
         list_dict (friends [bob_plain, jose_padded])]))))"
  (is "?H \<and> ?V \<and> ?S \<and> ?O")
proof -
  have h: ?H
    by (simp add: team_def friends_def stored_def world0_def list_dict_def fst_get_lists
        source_list_def)
  have v: ?V
    by (simp add: team_def friends_def stored_def world0_def list_dict_def
        get_common_members_def count_members_def count_member_def
        key_bob_plain key_jose_upper key_jose_padded
        source_list_def get_name_def get_members_def fst_get_lists snd_get_lists
        ensure_storage_exists_def Let_def split_beta)
  note inst = common_members_exact [OF h]
  from inst have s: ?S by (elim conjE)
  from inst have o: ?O by (elim conjE)
  from h v s o show ?thesis by (intro conjI)
qed

end
